theory Spec2Isabelle
  imports Complex_Main "HOL-Library.Multiset"
begin

section \<open>Orders\<close>

text \<open>
  The \<open>Order\<close> interface of \<^verbatim>\<open>OrderQueue.tsx\<close>. The status union type is a datatype.
  The field \<open>id\<close> (MongoDB \<open>_id\<close>) is \<open>id_mongo\<close> here; \<open>orderId\<close> is the custom UUID.
  \<open>orderTime\<close> holds the epoch milliseconds that \<^verbatim>\<open>new Date(order.orderTime).getTime()\<close>
  yields for the ISO string of the source. The money fields of an order are only carried
  along in the queue; the arithmetic of the checkout is in the section on numbers.
\<close>

datatype status = PLACED | PREPARING | READY_FOR_PICKUP | COMPLETED | REJECTED

record orderItem =
  productId :: string
  productName :: string
  priceAtOrder :: rat
  quantity :: int
  imageUrl :: string
  isVeg :: bool

record order =
  id_mongo :: string
  orderId :: string
  customerEmail :: string
  customerName :: string
  customerPhone :: string
  items :: "orderItem list"
  totalAmount :: rat
  status :: status
  orderTime :: int
  estimatedPickupTime :: string
  vendorId :: string
  shopId :: string
  shopName :: string
  vendorName :: string
  shopAddress :: string

section \<open>sortOrders\<close>

text \<open>
  The comparator handed to \<^verbatim>\<open>Array.prototype.sort\<close>: the difference of the timestamps,
  newest first, when both orders are PLACED, and 0 for every other pair.
\<close>

definition compareOrders :: "order \<Rightarrow> order \<Rightarrow> int" where
  "compareOrders a b =
     (if status a = PLACED \<and> status b = PLACED then orderTime b - orderTime a else 0)"

text \<open>
  \<^verbatim>\<open>[...ordersArray].sort(cmp)\<close> is a stable insertion sort: each element in turn travels
  left past the elements that the comparator puts after it (\<open>cmp y x > 0\<close>) and stops at
  the first one that it does not. \<open>sift\<close> works on the sorted prefix held last element
  first. ECMAScript fixes the result of \<open>sort\<close> only for a consistent comparator; for the
  others the order is left to the engine, and the theorems below that do not depend on it
  use only that the result is a permutation of the argument.
\<close>

fun sift :: "('a \<Rightarrow> 'a \<Rightarrow> int) \<Rightarrow> 'a \<Rightarrow> 'a list \<Rightarrow> 'a list" where
  "sift cmp x [] = [x]"
| "sift cmp x (y # rs) = (if cmp y x > 0 then y # sift cmp x rs else x # y # rs)"

definition array_sort :: "('a \<Rightarrow> 'a \<Rightarrow> int) \<Rightarrow> 'a list \<Rightarrow> 'a list" where
  "array_sort cmp xs = rev (foldl (\<lambda>rs x. sift cmp x rs) [] xs)"

definition sortOrders :: "order list \<Rightarrow> order list" where
  "sortOrders ordersArray = array_sort compareOrders ordersArray"

section \<open>The vendor queue: store, ingestion, view\<close>

text \<open>\<^verbatim>\<open>Array.prototype.findIndex\<close>; the source's \<open>-1\<close> is \<open>None\<close>.\<close>

fun findIndex :: "('a \<Rightarrow> bool) \<Rightarrow> 'a list \<Rightarrow> nat option" where
  "findIndex P [] = None"
| "findIndex P (x # xs) = (if P x then Some 0 else map_option Suc (findIndex P xs))"

text \<open>
  The handler of the subscription to \<^verbatim>\<open>/topic/orders/${vendorUsername}\<close>: the updater
  given to \<open>setOrders\<close>, applied to the previous list.
\<close>

definition ingest :: "order \<Rightarrow> order list \<Rightarrow> order list" where
  "ingest updatedOrder prevOrders =
     (case findIndex (\<lambda>order. id_mongo order = id_mongo updatedOrder) prevOrders of
        Some existingOrderIndex \<Rightarrow> sortOrders (prevOrders[existingOrderIndex := updatedOrder])
      | None \<Rightarrow> sortOrders (updatedOrder # prevOrders))"

text \<open>
  The customer tracker (\<^verbatim>\<open>OrderTrackingPage\<close>) holds one order or null; its subscription
  handler calls \<^verbatim>\<open>setOrder(updatedOrder)\<close>.
\<close>

definition trackerIngest :: "order \<Rightarrow> order option \<Rightarrow> order option" where
  "trackerIngest updatedOrder prev = Some updatedOrder"

text \<open>\<^verbatim>\<open>fetchInitialOrders\<close>: the response of the snapshot read, sorted.\<close>

definition fetchInitialOrders :: "order list \<Rightarrow> order list" where
  "fetchInitialOrders response = sortOrders response"

text \<open>The four display sections.\<close>

definition pendingOrders :: "order list \<Rightarrow> order list" where
  "pendingOrders orders = filter (\<lambda>order. status order = PLACED) orders"

definition preparingOrders :: "order list \<Rightarrow> order list" where
  "preparingOrders orders = filter (\<lambda>order. status order = PREPARING) orders"

definition readyOrders :: "order list \<Rightarrow> order list" where
  "readyOrders orders = filter (\<lambda>order. status order = READY_FOR_PICKUP) orders"

definition historicalOrders :: "order list \<Rightarrow> order list" where
  "historicalOrders orders =
     filter (\<lambda>order. status order = COMPLETED \<or> status order = REJECTED) orders"

text \<open>
  A button is the call of \<open>handleStatusChange\<close> that its \<open>onClick\<close> makes: the identifier,
  the current status and the new status. The Accept, Mark-as-Ready and Mark-as-Completed
  buttons pass \<open>order.orderId\<close>; the Reject button passes \<open>order.id\<close>.
\<close>

datatype click = Click string status status

definition pendingActions :: "order \<Rightarrow> click list" where
  "pendingActions order =
     [Click (orderId order) (status order) PREPARING,
      Click (id_mongo order) (status order) REJECTED]"

definition preparingActions :: "order \<Rightarrow> click list" where
  "preparingActions order = [Click (orderId order) (status order) READY_FOR_PICKUP]"

definition readyActions :: "order \<Rightarrow> click list" where
  "readyActions order = [Click (orderId order) (status order) COMPLETED]"

text \<open>Every button on the screen of a queue that holds \<open>orders\<close>; historical cards have none.\<close>

definition renderQueue :: "order list \<Rightarrow> click list" where
  "renderQueue orders =
     concat (map pendingActions (pendingOrders orders)) @
     concat (map preparingActions (preparingOrders orders)) @
     concat (map readyActions (readyOrders orders))"

text \<open>
  The stand-alone \<^verbatim>\<open>OrderCard\<close> component renders its buttons by the status of its order
  and hands \<open>order.id\<close> to each callback.
\<close>

definition cardActions :: "order \<Rightarrow> click list" where
  "cardActions order =
     (if status order = PLACED then
        [Click (id_mongo order) (status order) PREPARING,
         Click (id_mongo order) (status order) REJECTED]
      else []) @
     (if status order = PREPARING then
        [Click (id_mongo order) (status order) READY_FOR_PICKUP] else []) @
     (if status order = READY_FOR_PICKUP then
        [Click (id_mongo order) (status order) COMPLETED] else [])"

text \<open>The transition that a button requests.\<close>

fun edge :: "click \<Rightarrow> status \<times> status" where
  "edge (Click i s t) = (s, t)"

text \<open>The edges that the specification lists as legal.\<close>

definition legalEdges :: "(status \<times> status) set" where
  "legalEdges =
     {(PLACED, PREPARING), (PLACED, REJECTED),
      (PREPARING, READY_FOR_PICKUP), (READY_FOR_PICKUP, COMPLETED)}"

text \<open>The order that a viewer sees under an identifier.\<close>

definition findById :: "string \<Rightarrow> order list \<Rightarrow> order option" where
  "findById i orders = find (\<lambda>order. id_mongo order = i) orders"

definition findByOrderId :: "string \<Rightarrow> order list \<Rightarrow> order option" where
  "findByOrderId i orders = find (\<lambda>order. orderId order = i) orders"

section \<open>handleStatusChange\<close>

text \<open>
  The props of \<open>OrderQueue\<close> that the handler reads: \<open>vendorId\<close>, and whether
  \<^verbatim>\<open>stompClient && stompClient.connected\<close> holds.
\<close>

record env =
  vendorId_prop :: string
  stompConnected :: bool

datatype call =
    HttpPut string status string
  | StompPublish string status string
  | FetchPut string status "int option"

datatype toast =
    OrderUpdated | UpdateFailed
  | QRCodeScanned | OrderCompleted | OrderUpdateFailed

datatype effect = SetOrders "order list" | Send call | Toast toast

text \<open>The updater of the optimistic \<open>setOrders\<close> call, and the list that the catch block installs.\<close>

definition applyOptimistic :: "string \<Rightarrow> status \<Rightarrow> order list \<Rightarrow> order list" where
  "applyOptimistic orderCustomId newStatus prev =
     sortOrders (map (\<lambda>order. if orderId order = orderCustomId
                               then order\<lparr>status := newStatus\<rparr> else order) prev)"

definition rollback :: "order list \<Rightarrow> order list" where
  "rollback prevOrdersState = sortOrders prevOrdersState"

text \<open>
  The handler runs in one go up to \<^verbatim>\<open>await axios.put\<close>, or to its end on the WebSocket
  branch, which awaits nothing. \<open>hsc_enter\<close> gives the effects of that first part in
  program order and, when the handler is suspended at the await, the \<open>prevOrdersState\<close>
  that its catch block will use. \<open>orders\<close> is the list of the render in which the button
  was clicked. \<open>hsc_resume\<close> is the rest, run when the PUT settles.
\<close>

definition hsc_enter ::
  "env \<Rightarrow> order list \<Rightarrow> string \<Rightarrow> status \<Rightarrow> status \<Rightarrow> effect list \<times> order list option" where
  "hsc_enter e orders orderCustomId currentOrderStatus newStatus =
     (let prevOrdersState = orders;
          optimistic = SetOrders (applyOptimistic orderCustomId newStatus orders)
      in if currentOrderStatus = PLACED then
           ([optimistic, Send (HttpPut orderCustomId newStatus (vendorId_prop e))],
            Some prevOrdersState)
         else if stompConnected e then
           ([optimistic, Send (StompPublish orderCustomId newStatus (vendorId_prop e)),
             Toast OrderUpdated], None)
         else
           ([optimistic, SetOrders (rollback prevOrdersState), Toast UpdateFailed], None))"

definition hsc_resume :: "order list \<Rightarrow> bool \<Rightarrow> effect list" where
  "hsc_resume prevOrdersState putOk =
     (if putOk then [Toast OrderUpdated]
      else [SetOrders (rollback prevOrdersState), Toast UpdateFailed])"

text \<open>The whole handler when nothing else runs while the PUT is in flight.\<close>

definition handleStatusChange ::
  "env \<Rightarrow> bool \<Rightarrow> order list \<Rightarrow> string \<Rightarrow> status \<Rightarrow> status \<Rightarrow> effect list" where
  "handleStatusChange e putOk orders orderCustomId currentOrderStatus newStatus =
     (case hsc_enter e orders orderCustomId currentOrderStatus newStatus of
        (effects, None) \<Rightarrow> effects
      | (effects, Some prevOrdersState) \<Rightarrow> effects @ hsc_resume prevOrdersState putOk)"

text \<open>Reading a trace: the list that the last \<open>setOrders\<close> installed, and the calls sent.\<close>

fun finalOrders :: "order list \<Rightarrow> effect list \<Rightarrow> order list" where
  "finalOrders orders [] = orders"
| "finalOrders orders (SetOrders v # effects) = finalOrders v effects"
| "finalOrders orders (_ # effects) = finalOrders orders effects"

fun sent :: "effect list \<Rightarrow> call list" where
  "sent [] = []"
| "sent (Send c # effects) = c # sent effects"
| "sent (_ # effects) = sent effects"

fun failed :: "effect list \<Rightarrow> bool" where
  "failed [] = False"
| "failed (Toast UpdateFailed # effects) = True"
| "failed (_ # effects) = failed effects"

section \<open>The queue as a state machine\<close>

text \<open>
  The component between events: the \<open>orders\<close> state and, for each call of the handler that
  has reached its \<^verbatim>\<open>await axios.put\<close>, the \<open>prevOrdersState\<close> it captured; the position
  in \<open>inflight\<close> names the call, and the entry is \<open>None\<close> once its PUT has settled. An
  event is a click on a button, the settling of the PUT of call \<open>n\<close> (resolved or rejected),
  or a message on the vendor topic. React renders between two events, so the \<open>orders\<close>
  that a click handler closes over is the state at the click.
\<close>

record queue =
  orders :: "order list"
  inflight :: "order list option list"

datatype event = Press click | PutSettled nat bool | Message order

fun step :: "env \<Rightarrow> queue \<Rightarrow> event \<Rightarrow> queue" where
  "step e q (Press (Click orderCustomId currentOrderStatus newStatus)) =
     (case hsc_enter e (orders q) orderCustomId currentOrderStatus newStatus of
        (effects, k) \<Rightarrow>
          \<lparr>orders = finalOrders (orders q) effects,
           inflight = inflight q @ (case k of None \<Rightarrow> [] | Some p \<Rightarrow> [Some p])\<rparr>)"
| "step e q (PutSettled n putOk) =
     (if n < length (inflight q) then
        (case inflight q ! n of
           None \<Rightarrow> q
         | Some prevOrdersState \<Rightarrow>
             \<lparr>orders = finalOrders (orders q) (hsc_resume prevOrdersState putOk),
              inflight = (inflight q)[n := None]\<rparr>)
      else q)"
| "step e q (Message updatedOrder) = q\<lparr>orders := ingest updatedOrder (orders q)\<rparr>"

fun run :: "env \<Rightarrow> queue \<Rightarrow> event list \<Rightarrow> queue" where
  "run e q [] = q"
| "run e q (ev # evs) = run e (step e q ev) evs"

section \<open>QR-code completion\<close>

text \<open>
  The scan callback of \<open>startScanning\<close>: it calls \<open>updateOrderStatusToCompleted\<close> with the
  scanned text, which issues the PUT at once, and shows the scan toast; the outcome toast
  follows when the response is in. \<open>vendorIdNumber\<close> is \<^verbatim>\<open>Number(vendorId)\<close>, \<open>None\<close> for NaN.
\<close>

text \<open>The tracking page draws the code from \<open>order.orderId\<close> (\<^verbatim>\<open>QRCodeGenerator\<close>).\<close>

definition qrCode :: "order \<Rightarrow> string" where
  "qrCode order = orderId order"

definition updateOrderStatusToCompleted :: "int option \<Rightarrow> bool \<Rightarrow> string \<Rightarrow> effect list" where
  "updateOrderStatusToCompleted vendorIdNumber responseOk orderId' =
     Send (FetchPut orderId' COMPLETED vendorIdNumber) #
     (if responseOk then [Toast OrderCompleted] else [Toast OrderUpdateFailed])"

definition onScan :: "int option \<Rightarrow> bool \<Rightarrow> string \<Rightarrow> effect list" where
  "onScan vendorIdNumber responseOk data =
     (case updateOrderStatusToCompleted vendorIdNumber responseOk data of
        [] \<Rightarrow> [Toast QRCodeScanned]
      | request # later \<Rightarrow> request # Toast QRCodeScanned # later)"

text \<open>
  Modelled from the spec: the Transition Validator of section 4.1, which runs on the
  server and is not among the sources. \<open>canTransition\<close> holds for the four legal edges
  and for no other pair; \<open>applyTransition\<close> gives the order in the requested status, or
  fails with \<open>InvalidTransition\<close>. The event timestamp that the validator stamps is no
  field of the order of the sources and is left out.
\<close>

datatype transitionError = InvalidTransition | NotFound

fun canTransition :: "status \<Rightarrow> status \<Rightarrow> bool" where
  "canTransition PLACED PREPARING = True"
| "canTransition PLACED REJECTED = True"
| "canTransition PREPARING READY_FOR_PICKUP = True"
| "canTransition READY_FOR_PICKUP COMPLETED = True"
| "canTransition _ _ = False"

definition applyTransition :: "order \<Rightarrow> status \<Rightarrow> transitionError + order" where
  "applyTransition order requested =
     (if canTransition (status order) requested then Inr (order\<lparr>status := requested\<rparr>)
      else Inl InvalidTransition)"

text \<open>
  Modelled from the spec: the synchronous transition of section 6, the PUT that takes an
  order identifier and a new status and returns the updated order or an error, on the
  orders that the server holds. An identifier unknown to the server is \<open>NotFound\<close>
  (section 7); every other request passes through the validator, and the server's orders
  change only when it accepts. The answer comes with the server's orders afterwards.
\<close>

definition serverPut ::
  "order list \<Rightarrow> string \<Rightarrow> status \<Rightarrow> (transitionError + order) \<times> order list" where
  "serverPut server i newStatus =
     (case find (\<lambda>order. orderId order = i) server of
        None \<Rightarrow> (Inl NotFound, server)
      | Some order \<Rightarrow>
          (case applyTransition order newStatus of
             Inl err \<Rightarrow> (Inl err, server)
           | Inr updated \<Rightarrow>
               (Inr updated,
                map (\<lambda>x. if orderId x = i then updated else x) server)))"

text \<open>
  Modelled from the spec: the answer to the scanner's PUT, which comes from the server.
  A scan against the server above: the PUT of \<open>onScan\<close> is answered by \<open>serverPut\<close>,
  and \<open>response.ok\<close> is whether the answer is an order. The result is the scanner's
  effects and the server's orders afterwards.
\<close>

definition scanAtServer :: "int option \<Rightarrow> order list \<Rightarrow> string \<Rightarrow> effect list \<times> order list" where
  "scanAtServer vendorIdNumber server data =
     (case serverPut server data COMPLETED of
        (Inr updated, server') \<Rightarrow> (onScan vendorIdNumber True data, server')
      | (Inl err, server') \<Rightarrow> (onScan vendorIdNumber False data, server'))"

section \<open>JavaScript numbers\<close>

text \<open>
  A JavaScript number is an IEEE 754 binary64 value. A finite one is the rational it
  denotes; \<open>None\<close> stands for the values that are not finite (Infinity, -Infinity, NaN),
  which \<^verbatim>\<open>JSON.stringify\<close> writes as null. With addition, multiplication and
  \<^verbatim>\<open>Math.round\<close> only, an operand that is not finite gives a result that is not finite, and
  the sign of a zero is never observed.

  \<open>fl\<close> rounds an exact rational to the nearest binary64 value, ties to the even
  significand: \<open>binade x\<close> is the \<open>e\<close> with \<open>2^e \<le> x < 2^(e+1)\<close>, the spacing of the values
  there is \<open>2^(e-52)\<close>, with \<open>e\<close> no less than -1022 (subnormal numbers), and a result of
  \<open>2^1024\<close> or more is Infinity.
\<close>

definition pow2 :: "int \<Rightarrow> rat" where
  "pow2 e = (if 0 \<le> e then 2 ^ nat e else 1 / 2 ^ nat (- e))"

text \<open>The number of binary digits of a positive integer.\<close>

function bits :: "int \<Rightarrow> int" where
  "bits n = (if n \<le> 0 then 0 else 1 + bits (n div 2))"
  by pat_completeness auto
termination
  by (relation "measure nat") auto

definition binade :: "rat \<Rightarrow> int" where
  "binade x =
     (if 1 \<le> x then bits \<lfloor>x\<rfloor> - 1
      else (let b = bits \<lfloor>1 / x\<rfloor> in if pow2 (1 - b) \<le> x then 1 - b else - b))"

definition round_even :: "rat \<Rightarrow> int" where
  "round_even m =
     (let f = \<lfloor>m\<rfloor>; d = m - of_int f
      in if d < 1 / 2 then f else if 1 / 2 < d then f + 1
         else if even f then f else f + 1)"

definition fl_pos :: "rat \<Rightarrow> rat option" where
  "fl_pos x =
     (let ulp = pow2 (max (binade x) (- 1022) - 52);
          y = of_int (round_even (x / ulp)) * ulp
      in if y < pow2 1024 then Some y else None)"

definition fl :: "rat \<Rightarrow> rat option" where
  "fl x = (if x = 0 then Some 0 else if 0 < x then fl_pos x
           else map_option uminus (fl_pos (- x)))"

text \<open>The operators \<^verbatim>\<open>+\<close> and \<^verbatim>\<open>*\<close> on numbers: the exact result, rounded.\<close>

definition fadd :: "rat option \<Rightarrow> rat option \<Rightarrow> rat option" where
  "fadd a b = (case (a, b) of (Some x, Some y) \<Rightarrow> fl (x + y) | _ \<Rightarrow> None)"

definition fmul :: "rat option \<Rightarrow> rat option \<Rightarrow> rat option" where
  "fmul a b = (case (a, b) of (Some x, Some y) \<Rightarrow> fl (x * y) | _ \<Rightarrow> None)"

text \<open>
  \<^verbatim>\<open>Math.round\<close>: the nearest integer, halves upwards. The result is exact: a binary64
  value below \<open>2^52\<close> in size rounds to an integer that is a binary64 value, and the larger
  ones are integers already.
\<close>

definition Math_round :: "rat option \<Rightarrow> rat option" where
  "Math_round a = map_option (\<lambda>x. of_int \<lfloor>x + 1 / 2\<rfloor>) a"

section \<open>Checkout\<close>

text \<open>
  Of a checkout item only the fields that \<open>handlePlaceOrder\<close> reads. \<open>price\<close> and
  \<open>item_quantity\<close> hold finite numbers, as parsed from the JSON of the product and kept
  in the cart. A number in the payload is \<open>None\<close> when it is not finite.
\<close>

record user =
  user_id :: "string option"
  user_name :: "string option"
  mobileNumber :: "string option"
  email :: "string option"

record checkoutItem =
  item_id :: int
  price :: rat
  item_quantity :: rat

record payloadItem =
  payload_productId :: int
  payload_quantity :: rat
  payload_priceAtOrder :: rat

record orderPayload =
  payload_userId :: string
  payload_customerName :: string
  payload_customerPhone :: string
  payload_customerEmail :: string
  payload_shopId :: int
  payload_items :: "payloadItem list"
  payload_totalAmount :: "rat option"
  payload_status :: status
  payload_orderDate :: string
  payload_estimatedPickupTime :: string
  payload_paymentMethod :: string

datatype placeError = MissingUserInformation | EmptyCart

text \<open>
  The three calculations above \<open>handlePlaceOrder\<close>: the \<open>reduce\<close> from 0, the tax with
  the literal \<open>0.05\<close> (the binary64 value nearest to 1/20), and their sum.
\<close>

definition subtotal :: "checkoutItem list \<Rightarrow> rat option" where
  "subtotal checkoutItems =
     foldl (\<lambda>sum item. fadd sum (fmul (Some (price item)) (Some (item_quantity item))))
       (Some 0) checkoutItems"

definition taxes :: "checkoutItem list \<Rightarrow> rat option" where
  "taxes checkoutItems = Math_round (fmul (subtotal checkoutItems) (fl (5 / 100)))"

definition total :: "checkoutItem list \<Rightarrow> rat option" where
  "total checkoutItems = fadd (subtotal checkoutItems) (taxes checkoutItems)"

text \<open>A string or null is falsy when it is null or empty; a number or null when null or 0.\<close>

definition falsy :: "string option \<Rightarrow> bool" where
  "falsy s = (s = None \<or> s = Some [])"

text \<open>
  \<open>handlePlaceOrder\<close> up to the POST: the two guards, then the payload that is posted.
  \<open>now\<close> and \<open>pickup\<close> are the two ISO strings of the clock.
\<close>

definition handlePlaceOrder ::
  "user option \<Rightarrow> checkoutItem list \<Rightarrow> int option \<Rightarrow> string \<Rightarrow> string \<Rightarrow> string
     \<Rightarrow> placeError + orderPayload" where
  "handlePlaceOrder usr checkoutItems currentShopId paymentMethod now pickup =
     (case usr of
        None \<Rightarrow> Inl MissingUserInformation
      | Some u \<Rightarrow>
          if falsy (user_id u) \<or> falsy (user_name u) \<or> falsy (mobileNumber u) \<or> falsy (email u)
          then Inl MissingUserInformation
          else if checkoutItems = [] \<or> currentShopId = None \<or> currentShopId = Some 0
          then Inl EmptyCart
          else Inr
            \<lparr>payload_userId = the (user_id u),
             payload_customerName = the (user_name u),
             payload_customerPhone = the (mobileNumber u),
             payload_customerEmail = the (email u),
             payload_shopId = the currentShopId,
             payload_items = map (\<lambda>item.
                 \<lparr>payload_productId = item_id item,
                  payload_quantity = item_quantity item,
                  payload_priceAtOrder = price item\<rparr>) checkoutItems,
             payload_totalAmount = total checkoutItems,
             payload_status = PLACED,
             payload_orderDate = now,
             payload_estimatedPickupTime = pickup,
             payload_paymentMethod = paymentMethod\<rparr>)"

text \<open>
  The specification's total of an order: the sum over its line items of snapshot price
  times quantity, taken in the numbers of the program, item by item from 0.
\<close>

definition lineSum :: "payloadItem list \<Rightarrow> rat option" where
  "lineSum its =
     foldl (\<lambda>sum i. fadd sum (fmul (Some (payload_priceAtOrder i)) (Some (payload_quantity i))))
       (Some 0) its"

section \<open>Sample data\<close>

text \<open>An order with the given two identifiers, status and placement time, for concrete runs.\<close>

definition sampleOrder :: "string \<Rightarrow> string \<Rightarrow> status \<Rightarrow> int \<Rightarrow> order" where
  "sampleOrder i oid s t =
     \<lparr>id_mongo = i, orderId = oid, customerEmail = ''asha@example.org'',
      customerName = ''Asha'', customerPhone = ''5550100'',
      items = [\<lparr>productId = ''7'', productName = ''Dosa'', priceAtOrder = 100, quantity = 1,
                imageUrl = [], isVeg = True\<rparr>],
      totalAmount = 105, status = s, orderTime = t, estimatedPickupTime = [],
      vendorId = ''1'', shopId = ''1'', shopName = ''Stall'', vendorName = ''Ravi'',
      shopAddress = ''Court 1''\<rparr>"

definition sampleEnv :: "bool \<Rightarrow> env" where
  "sampleEnv live = \<lparr>vendorId_prop = ''1'', stompConnected = live\<rparr>"

definition sampleUser :: user where
  "sampleUser = \<lparr>user_id = Some ''42'', user_name = Some ''Asha'',
     mobileNumber = Some ''5550100'', email = Some ''asha@example.org''\<rparr>"

section \<open>sortOrders permutes\<close>

lemma mset_sift: "mset (sift cmp x rs) = add_mset x (mset rs)"
  by (induction rs) auto

lemma mset_foldl_sift: "mset (foldl (\<lambda>rs x. sift cmp x rs) acc xs) = mset acc + mset xs"
  by (induction xs arbitrary: acc) (auto simp: mset_sift)

lemma mset_array_sort: "mset (array_sort cmp xs) = mset xs"
  by (simp add: array_sort_def mset_foldl_sift)

lemma mset_sortOrders: "mset (sortOrders xs) = mset xs"
  by (simp add: sortOrders_def mset_array_sort)

lemma set_sortOrders: "set (sortOrders xs) = set xs"
  using mset_sortOrders by (metis set_mset_mset)

lemma length_sortOrders: "length (sortOrders xs) = length xs"
  using mset_sortOrders by (metis size_mset)

section \<open>Lookup by a key that identifies\<close>

lemma find_distinct_key:
  "distinct (map f xs) \<Longrightarrow> (find (\<lambda>x. f x = k) xs = Some y) = (y \<in> set xs \<and> f y = k)"
  by (induction xs) (auto simp: image_iff)

lemma find_None_key: "(find (\<lambda>x. f x = k) xs = None) = (k \<notin> f ` set xs)"
  by (induction xs) auto

lemma distinct_map_mset:
  "mset xs = mset ys \<Longrightarrow> distinct (map f xs) = distinct (map f ys)"
  by (metis mset_map mset_eq_imp_distinct_iff)

lemma find_key_perm:
  assumes "mset xs = mset ys" "distinct (map f xs)"
  shows "find (\<lambda>x. f x = k) xs = find (\<lambda>x. f x = k) ys"
proof -
  have d: "distinct (map f ys)" using assms distinct_map_mset by blast
  have s: "set xs = set ys" using assms(1) by (metis set_mset_mset)
  show ?thesis
  proof (cases "find (\<lambda>x. f x = k) xs")
    case None
    then have "k \<notin> f ` set ys" using s by (simp add: find_None_key)
    then have "find (\<lambda>x. f x = k) ys = None" by (simp add: find_None_key)
    then show ?thesis using None by simp
  next
    case (Some y)
    then have "y \<in> set ys \<and> f y = k" using assms(2) s by (simp add: find_distinct_key)
    then have "find (\<lambda>x. f x = k) ys = Some y" using d by (simp add: find_distinct_key)
    then show ?thesis using Some by simp
  qed
qed

lemma findByOrderId_sortOrders:
  "distinct (map orderId store) \<Longrightarrow> findByOrderId i (sortOrders store) = findByOrderId i store"
  unfolding findByOrderId_def
  by (rule find_key_perm [symmetric]) (simp_all add: mset_sortOrders)

section \<open>The transitions offered by the queue\<close>

lemma edge_renderQueue:
  "edge ` set (renderQueue store) =
     {(s, t). s \<in> status ` set store \<and> (s, t) \<in> legalEdges}"
proof -
  have p: "edge ` set (concat (map pendingActions (pendingOrders store))) =
      {(s, t). s \<in> status ` set store \<and> s = PLACED \<and> (t = PREPARING \<or> t = REJECTED)}"
    by (induction store) (auto simp: pendingOrders_def pendingActions_def)
  have r: "edge ` set (concat (map preparingActions (preparingOrders store))) =
      {(s, t). s \<in> status ` set store \<and> s = PREPARING \<and> t = READY_FOR_PICKUP}"
    by (induction store) (auto simp: preparingOrders_def preparingActions_def)
  have c: "edge ` set (concat (map readyActions (readyOrders store))) =
      {(s, t). s \<in> status ` set store \<and> s = READY_FOR_PICKUP \<and> t = COMPLETED}"
    by (induction store) (auto simp: readyOrders_def readyActions_def)
  have "edge ` set (renderQueue store) =
      edge ` set (concat (map pendingActions (pendingOrders store))) \<union>
      edge ` set (concat (map preparingActions (preparingOrders store))) \<union>
      edge ` set (concat (map readyActions (readyOrders store)))"
    by (simp add: renderQueue_def image_Un Un_assoc del: set_concat)
  then show ?thesis unfolding p r c by (auto simp: legalEdges_def)
qed

lemma edge_cardActions:
  "edge ` set (cardActions order) = {(s, t). s = status order \<and> (s, t) \<in> legalEdges}"
  by (cases "status order"; simp add: cardActions_def legalEdges_def; auto)

text \<open>
  C1. A transition from \<open>s\<close> to \<open>t\<close> is on offer in the vendor queue (as a button of some
  order shown in status \<open>s\<close>) exactly when \<open>(s, t)\<close> is one of PLACED to PREPARING, PLACED to
  REJECTED, PREPARING to READY_FOR_PICKUP, READY_FOR_PICKUP to COMPLETED; the stand-alone
  order card offers the same edges. No pair with equal ends is among them, and nothing is
  on offer for an order in COMPLETED or REJECTED.
\<close>

theorem C1_offered_transitions:
  "((s, t) \<in> edge ` set (renderQueue store)) = (s \<in> status ` set store \<and> (s, t) \<in> legalEdges)
   \<and> ((s, t) \<in> edge ` set (cardActions order)) = (s = status order \<and> (s, t) \<in> legalEdges)
   \<and> (COMPLETED, t) \<notin> edge ` set (renderQueue store)
   \<and> (REJECTED, t) \<notin> edge ` set (renderQueue store)
   \<and> (COMPLETED, t) \<notin> legalEdges \<and> (REJECTED, t) \<notin> legalEdges \<and> (s, s) \<notin> legalEdges"
  by (cases s) (simp_all add: edge_renderQueue edge_cardActions legalEdges_def)

section \<open>Ingestion of broadcast events\<close>

lemma findIndex_Some:
  "findIndex P xs = Some i \<Longrightarrow> i < length xs \<and> P (xs ! i)"
  by (induction xs arbitrary: i) (auto split: if_splits)

lemma findIndex_None: "(findIndex P xs = None) = (\<forall>x\<in>set xs. \<not> P x)"
  by (induction xs) auto

lemma distinct_map_update:
  assumes "distinct (map f xs)" "i < length xs" "f (xs ! i) = f y"
  shows "distinct (map f (xs[i := y]))"
proof -
  have "map f (xs[i := y]) = (map f xs)[i := f y]" by (simp add: map_update)
  also have "\<dots> = map f xs" using assms by (metis list_update_id nth_map)
  finally show ?thesis using assms(1) by simp
qed

lemma ingest_present:
  assumes "findIndex (\<lambda>order. id_mongo order = id_mongo ev) store = Some i"
  shows "mset (ingest ev store) = mset (store[i := ev])"
  using assms by (simp add: ingest_def mset_sortOrders)

lemma findById_ingest:
  assumes d: "distinct (map id_mongo store)" and p: "id_mongo ev \<in> id_mongo ` set store"
  shows "findById (id_mongo ev) (ingest ev store) = Some ev
     \<and> distinct (map id_mongo (ingest ev store))
     \<and> id_mongo ` set (ingest ev store) = id_mongo ` set store
     \<and> length (ingest ev store) = length store"
proof -
  from p obtain i where i: "findIndex (\<lambda>order. id_mongo order = id_mongo ev) store = Some i"
    using findIndex_None [of "\<lambda>order. id_mongo order = id_mongo ev" store]
    by (cases "findIndex (\<lambda>order. id_mongo order = id_mongo ev) store") auto
  then have il: "i < length store" and ii: "id_mongo (store ! i) = id_mongo ev"
    using findIndex_Some by fastforce+
  have m: "mset (ingest ev store) = mset (store[i := ev])" using i by (rule ingest_present)
  have d': "distinct (map id_mongo (store[i := ev]))" using d il ii by (rule distinct_map_update)
  then have d'': "distinct (map id_mongo (ingest ev store))" using m distinct_map_mset by blast
  have "ev \<in> set (store[i := ev])" using il by (simp add: set_update_memI)
  then have "ev \<in> set (ingest ev store)" using m by (metis set_mset_mset)
  then have f: "findById (id_mongo ev) (ingest ev store) = Some ev"
    using d'' by (simp add: findById_def find_distinct_key)
  have "map id_mongo (store[i := ev]) = map id_mongo store"
    using il ii by (metis list_update_id nth_map map_update)
  then have "id_mongo ` set (store[i := ev]) = id_mongo ` set store" by (metis set_map)
  moreover have "set (ingest ev store) = set (store[i := ev])" using m by (metis set_mset_mset)
  ultimately have s: "id_mongo ` set (ingest ev store) = id_mongo ` set store" by simp
  have "length (ingest ev store) = length store" using m by (metis size_mset length_list_update)
  then show ?thesis using f d'' s by simp
qed

lemma id_mongo_applyOptimistic:
  "mset (map id_mongo (applyOptimistic oid s store)) = mset (map id_mongo store)"
proof -
  have "mset (map id_mongo (applyOptimistic oid s store)) =
        image_mset id_mongo (mset (map (\<lambda>order. if orderId order = oid
                               then order\<lparr>status := s\<rparr> else order) store))"
    by (simp add: applyOptimistic_def mset_sortOrders)
  also have "\<dots> = mset (map id_mongo store)"
    by (induction store) auto
  finally show ?thesis .
qed

lemma orders_put_resolved: "orders (step e q (PutSettled n True)) = orders q"
  by (simp add: hsc_resume_def split: option.splits)

lemma orders_put_rejected:
  "n < length (inflight q) \<Longrightarrow> inflight q ! n = Some p \<Longrightarrow>
   orders (step e q (PutSettled n False)) = sortOrders p"
  by (simp add: hsc_resume_def rollback_def)

text \<open>
  C2, as the claim has it, fails. Order \<open>o1\<close> is PLACED and Accept is pressed, so its PUT
  is in flight. The event that the server has the order REJECTED arrives and is shown.
  Then the PUT is rejected, and the rollback installs the list of the click: the order is
  shown as PLACED, and the server's event is gone.
\<close>

theorem C2_event_lost_on_rollback:
  "map status (orders (run (sampleEnv True)
      \<lparr>orders = [sampleOrder ''m1'' ''o1'' PLACED 1000], inflight = []\<rparr>
      [Press (Click ''o1'' PLACED PREPARING), Message (sampleOrder ''m1'' ''o1'' REJECTED 1000)]))
     = [REJECTED]
   \<and> map status (orders (run (sampleEnv True)
      \<lparr>orders = [sampleOrder ''m1'' ''o1'' PLACED 1000], inflight = []\<rparr>
      [Press (Click ''o1'' PLACED PREPARING), Message (sampleOrder ''m1'' ''o1'' REJECTED 1000),
       PutSettled 0 False]))
     = [PLACED]"
  by (simp add: hsc_enter_def hsc_resume_def Let_def rollback_def ingest_def
      applyOptimistic_def sortOrders_def array_sort_def compareOrders_def sampleOrder_def sampleEnv_def)

text \<open>
  C2, amended. In a store whose orders have distinct ids, a broadcast event for an order
  that is present leaves the event's payload, whole, as the order seen under that id:
  nothing of the former record survives, whether the store was as fetched or had an
  optimistic mutation applied. After two events for the same order, delivered one after
  the other, the order seen is the second payload; so after PLACED to PREPARING and then
  PREPARING to READY_FOR_PICKUP the status shown is READY_FOR_PICKUP. The customer
  tracker likewise holds the last payload. The payload stays when a PUT that was in
  flight resolves. It does not stay when such a PUT is rejected: the rollback then
  installs the list captured at the click, whatever was ingested since.
\<close>

theorem C2_ingest_overwrites:
  assumes d: "distinct (map id_mongo store)"
    and p: "id_mongo e1 \<in> id_mongo ` set store"
    and same: "id_mongo e2 = id_mongo e1"
  shows "findById (id_mongo e1) (ingest e1 store) = Some e1
       \<and> findById (id_mongo e1) (ingest e1 (applyOptimistic oid s store)) = Some e1
       \<and> findById (id_mongo e1) (ingest e2 (ingest e1 store)) = Some e2
       \<and> trackerIngest e2 (trackerIngest e1 tracked) = Some e2
       \<and> findById (id_mongo e1) (orders (run e \<lparr>orders = store, inflight = pend\<rparr>
            [Message e1, PutSettled n True])) = Some e1
       \<and> (n < length pend \<and> pend ! n = Some snapshot \<longrightarrow>
            orders (run e \<lparr>orders = store, inflight = pend\<rparr>
              [Message e1, PutSettled n False]) = sortOrders snapshot)"
proof -
  have a: "findById (id_mongo e1) (ingest e1 store) = Some e1"
    using findById_ingest [OF d p] by simp
  have "distinct (map id_mongo (applyOptimistic oid s store))"
    using d id_mongo_applyOptimistic [of oid s store] by (metis mset_eq_imp_distinct_iff)
  moreover have "id_mongo e1 \<in> id_mongo ` set (applyOptimistic oid s store)"
    using p id_mongo_applyOptimistic [of oid s store] by (metis set_map set_mset_mset)
  ultimately have b: "findById (id_mongo e1) (ingest e1 (applyOptimistic oid s store)) = Some e1"
    using findById_ingest by blast
  have "distinct (map id_mongo (ingest e1 store))"
    and "id_mongo e2 \<in> id_mongo ` set (ingest e1 store)"
    using findById_ingest [OF d p] same p by simp_all
  then have "findById (id_mongo e2) (ingest e2 (ingest e1 store)) = Some e2"
    using findById_ingest by blast
  then have c: "findById (id_mongo e1) (ingest e2 (ingest e1 store)) = Some e2"
    using same by simp
  let ?q = "step e \<lparr>orders = store, inflight = pend\<rparr> (Message e1)"
  have q: "orders ?q = ingest e1 store" and i: "inflight ?q = pend"
    by simp_all
  have r: "findById (id_mongo e1) (orders (run e \<lparr>orders = store, inflight = pend\<rparr>
            [Message e1, PutSettled n True])) = Some e1"
    using a q orders_put_resolved [of e ?q n] by (simp del: step.simps)
  have f: "n < length pend \<and> pend ! n = Some snapshot \<longrightarrow>
            orders (run e \<lparr>orders = store, inflight = pend\<rparr>
              [Message e1, PutSettled n False]) = sortOrders snapshot"
    using i orders_put_rejected [of n ?q snapshot e] by (simp del: step.simps)
  show ?thesis using a b c r f by (simp add: trackerIngest_def del: run.simps)
qed

theorem C2_ingest_overwrites_witness:
  "map_option status (findById ''m1''
     (ingest (sampleOrder ''m1'' ''o1'' READY_FOR_PICKUP 1000)
        (ingest (sampleOrder ''m1'' ''o1'' PREPARING 1000)
           [sampleOrder ''m1'' ''o1'' PLACED 1000]))) = Some READY_FOR_PICKUP"
proof -
  have h1: "distinct (map id_mongo [sampleOrder ''m1'' ''o1'' PLACED 1000])"
    by simp
  have h2: "id_mongo (sampleOrder ''m1'' ''o1'' PREPARING 1000)
              \<in> id_mongo ` set [sampleOrder ''m1'' ''o1'' PLACED 1000]"
    by (simp add: sampleOrder_def)
  have h3: "id_mongo (sampleOrder ''m1'' ''o1'' READY_FOR_PICKUP 1000)
              = id_mongo (sampleOrder ''m1'' ''o1'' PREPARING 1000)"
    by (simp add: sampleOrder_def)
  note t = C2_ingest_overwrites [OF h1 h2 h3]
  have "findById (id_mongo (sampleOrder ''m1'' ''o1'' PREPARING 1000))
     (ingest (sampleOrder ''m1'' ''o1'' READY_FOR_PICKUP 1000)
        (ingest (sampleOrder ''m1'' ''o1'' PREPARING 1000)
           [sampleOrder ''m1'' ''o1'' PLACED 1000]))
     = Some (sampleOrder ''m1'' ''o1'' READY_FOR_PICKUP 1000)"
    by (rule t [THEN conjunct2, THEN conjunct2, THEN conjunct1])
  moreover have "id_mongo (sampleOrder ''m1'' ''o1'' PREPARING 1000) = ''m1''"
    and "status (sampleOrder ''m1'' ''o1'' READY_FOR_PICKUP 1000) = READY_FOR_PICKUP"
    by (simp_all add: sampleOrder_def)
  ultimately show ?thesis by simp
qed

section \<open>The view\<close>

text \<open>
  Every order is in exactly one of the four sections, and \<open>sortOrders\<close> never changes
  the relative order of the orders that are not PLACED.
\<close>

lemma sections_partition:
  "mset (pendingOrders store) + mset (preparingOrders store) + mset (readyOrders store)
     + mset (historicalOrders store) = mset store"
proof (induction store)
  case Nil
  then show ?case
    by (simp add: pendingOrders_def preparingOrders_def readyOrders_def historicalOrders_def)
next
  case (Cons x xs)
  then show ?case
    by (cases "status x")
       (simp_all add: pendingOrders_def preparingOrders_def readyOrders_def historicalOrders_def)
qed

lemma filter_sift_others:
  "filter (\<lambda>order. status order \<noteq> PLACED) (sift compareOrders x rs) =
   filter (\<lambda>order. status order \<noteq> PLACED) (x # rs)"
  by (induction rs) (auto simp: compareOrders_def)

lemma filter_foldl_sift_others:
  "filter (\<lambda>order. status order \<noteq> PLACED) (foldl (\<lambda>rs x. sift compareOrders x rs) acc xs) =
   rev (filter (\<lambda>order. status order \<noteq> PLACED) xs) @ filter (\<lambda>order. status order \<noteq> PLACED) acc"
proof (induction xs arbitrary: acc)
  case Nil
  then show ?case by simp
next
  case (Cons x xs)
  show ?case
    unfolding foldl_Cons Cons.IH filter_sift_others by simp
qed

lemma sortOrders_keeps_others:
  "filter (\<lambda>order. status order \<noteq> PLACED) (sortOrders store) =
   filter (\<lambda>order. status order \<noteq> PLACED) store"
  by (simp add: sortOrders_def array_sort_def filter_foldl_sift_others flip: rev_filter)

text \<open>
  C6. The snapshot read answers with a PLACED order of time 1000, a PREPARING order and a
  PLACED order of time 3000, in this order. The comparator gives 0 for each neighbouring
  pair, so \<open>sortOrders\<close> moves nothing, and the Pending section shows the older order
  first, where the newest should be first.
\<close>

theorem C6_pending_oldest_first:
  "pendingOrders (fetchInitialOrders
      [sampleOrder ''m1'' ''o1'' PLACED 1000, sampleOrder ''m2'' ''o2'' PREPARING 2000,
       sampleOrder ''m3'' ''o3'' PLACED 3000]) =
   [sampleOrder ''m1'' ''o1'' PLACED 1000, sampleOrder ''m3'' ''o3'' PLACED 3000]"
  by (simp add: fetchInitialOrders_def sortOrders_def array_sort_def compareOrders_def
      pendingOrders_def sampleOrder_def)

section \<open>The handler: routing, failure, validation\<close>

text \<open>
  C3. A transition requested with current status PLACED is sent by HTTP PUT, whatever the
  target; with any other current status it is published on the WebSocket, when the client
  is connected, and otherwise nothing is sent and the handler fails. The handler fails
  exactly when the PUT is rejected or the client is not connected; it then installs the
  rollback and ends with the failure notice, and else it keeps the optimistic list and
  ends with the success notice. At most one call is sent in either case: nothing is
  retried.
\<close>

theorem C3_dispatch_routing:
  "sent (handleStatusChange e putOk store oid cur new) =
      (if cur = PLACED then [HttpPut oid new (vendorId_prop e)]
       else if stompConnected e then [StompPublish oid new (vendorId_prop e)] else [])
   \<and> failed (handleStatusChange e putOk store oid cur new) =
      (if cur = PLACED then \<not> putOk else \<not> stompConnected e)
   \<and> (if failed (handleStatusChange e putOk store oid cur new)
       then finalOrders store (handleStatusChange e putOk store oid cur new) = rollback store
          \<and> last (handleStatusChange e putOk store oid cur new) = Toast UpdateFailed
       else finalOrders store (handleStatusChange e putOk store oid cur new)
              = applyOptimistic oid new store
          \<and> last (handleStatusChange e putOk store oid cur new) = Toast OrderUpdated)
   \<and> length (sent (handleStatusChange e putOk store oid cur new)) \<le> 1"
  by (simp add: handleStatusChange_def hsc_enter_def hsc_resume_def Let_def)

lemma findByOrderId_applyOptimistic:
  assumes "distinct (map orderId store)"
  shows "findByOrderId oid (applyOptimistic oid new store) =
         map_option (\<lambda>order. order\<lparr>status := new\<rparr>) (findByOrderId oid store)"
proof -
  let ?g = "\<lambda>order. if orderId order = oid then order\<lparr>status := new\<rparr> else order"
  have k: "map orderId (map ?g store) = map orderId store"
    by (induction store) simp_all
  have dd: "distinct (map orderId (map ?g store))"
    unfolding k by (rule assms)
  have "findByOrderId oid (applyOptimistic oid new store) = findByOrderId oid (map ?g store)"
    unfolding applyOptimistic_def by (rule findByOrderId_sortOrders [OF dd])
  also have "\<dots> = map_option (\<lambda>order. order\<lparr>status := new\<rparr>) (findByOrderId oid store)"
    unfolding findByOrderId_def by (induction store) simp_all
  finally show ?thesis .
qed

lemma mset_applyOptimistic:
  "mset (applyOptimistic oid new store) =
   mset (map (\<lambda>order. if orderId order = oid then order\<lparr>status := new\<rparr> else order) store)"
  by (simp add: applyOptimistic_def mset_sortOrders)

text \<open>
  C10. The handler never looks at whether the pair of current and new status is a legal
  edge. Its first effect is the optimistic mutation for every pair: the list it installs
  is the list before, with the new status written into each order of the given orderId
  and every other order as it was, so where orderIds are distinct the order seen under
  that orderId is the former one in the new status. With the transport up, the call is
  sent and the success notice shown for every pair, so for the pair COMPLETED to PLACED
  as well; the handler fails only for the transport. What keeps illegal pairs away from
  the handler is that the queue renders buttons for legal edges only.
\<close>

theorem C10_no_client_validation:
  "hd (handleStatusChange e putOk store oid cur new) = SetOrders (applyOptimistic oid new store)
   \<and> handleStatusChange e True store oid cur new =
       (if cur = PLACED
        then [SetOrders (applyOptimistic oid new store),
              Send (HttpPut oid new (vendorId_prop e)), Toast OrderUpdated]
        else if stompConnected e
        then [SetOrders (applyOptimistic oid new store),
              Send (StompPublish oid new (vendorId_prop e)), Toast OrderUpdated]
        else [SetOrders (applyOptimistic oid new store), SetOrders (rollback store),
              Toast UpdateFailed])
   \<and> failed (handleStatusChange e putOk store oid cur new) =
       (if cur = PLACED then \<not> putOk else \<not> stompConnected e)
   \<and> sent (handleStatusChange e putOk store oid COMPLETED PLACED) =
       (if stompConnected e then [StompPublish oid PLACED (vendorId_prop e)] else [])
   \<and> edge ` set (renderQueue store) \<subseteq> legalEdges
   \<and> mset (applyOptimistic oid new store) =
       mset (map (\<lambda>order. if orderId order = oid then order\<lparr>status := new\<rparr> else order) store)
   \<and> (distinct (map orderId store) \<longrightarrow>
        findByOrderId oid (applyOptimistic oid new store) =
        map_option (\<lambda>order. order\<lparr>status := new\<rparr>) (findByOrderId oid store))"
proof -
  have a: "hd (handleStatusChange e putOk store oid cur new)
             = SetOrders (applyOptimistic oid new store)"
    by (simp add: handleStatusChange_def hsc_enter_def hsc_resume_def Let_def)
  have b: "handleStatusChange e True store oid cur new =
       (if cur = PLACED
        then [SetOrders (applyOptimistic oid new store),
              Send (HttpPut oid new (vendorId_prop e)), Toast OrderUpdated]
        else if stompConnected e
        then [SetOrders (applyOptimistic oid new store),
              Send (StompPublish oid new (vendorId_prop e)), Toast OrderUpdated]
        else [SetOrders (applyOptimistic oid new store), SetOrders (rollback store),
              Toast UpdateFailed])"
    by (simp add: handleStatusChange_def hsc_enter_def hsc_resume_def Let_def)
  have c: "failed (handleStatusChange e putOk store oid cur new) =
       (if cur = PLACED then \<not> putOk else \<not> stompConnected e)"
    by (simp add: handleStatusChange_def hsc_enter_def hsc_resume_def Let_def)
  have s: "sent (handleStatusChange e putOk store oid COMPLETED PLACED) =
       (if stompConnected e then [StompPublish oid PLACED (vendorId_prop e)] else [])"
    by (simp add: handleStatusChange_def hsc_enter_def hsc_resume_def Let_def)
  have l: "edge ` set (renderQueue store) \<subseteq> legalEdges"
    by (auto simp: edge_renderQueue)
  show ?thesis
    by (intro conjI impI a b c s l mset_applyOptimistic findByOrderId_applyOptimistic)
qed

theorem C10_no_client_validation_witness:
  "map_option status (findByOrderId ''o1''
     (applyOptimistic ''o1'' PLACED [sampleOrder ''m1'' ''o1'' COMPLETED 1000])) = Some PLACED
   \<and> hd (handleStatusChange (sampleEnv True) True [sampleOrder ''m1'' ''o1'' COMPLETED 1000]
           ''o1'' COMPLETED PLACED)
       = SetOrders (applyOptimistic ''o1'' PLACED [sampleOrder ''m1'' ''o1'' COMPLETED 1000])"
proof -
  have h: "distinct (map orderId [sampleOrder ''m1'' ''o1'' COMPLETED 1000])"
    by simp
  note t = C10_no_client_validation [of "sampleEnv True" True
      "[sampleOrder ''m1'' ''o1'' COMPLETED 1000]" "''o1''" COMPLETED PLACED]
  have m: "findByOrderId ''o1''
        (applyOptimistic ''o1'' PLACED [sampleOrder ''m1'' ''o1'' COMPLETED 1000]) =
      map_option (\<lambda>order. order\<lparr>status := PLACED\<rparr>)
        (findByOrderId ''o1'' [sampleOrder ''m1'' ''o1'' COMPLETED 1000])"
    using t h by blast
  have f: "findByOrderId ''o1'' [sampleOrder ''m1'' ''o1'' COMPLETED 1000]
            = Some (sampleOrder ''m1'' ''o1'' COMPLETED 1000)"
    by (simp add: findByOrderId_def sampleOrder_def)
  have "hd (handleStatusChange (sampleEnv True) True [sampleOrder ''m1'' ''o1'' COMPLETED 1000]
           ''o1'' COMPLETED PLACED)
       = SetOrders (applyOptimistic ''o1'' PLACED [sampleOrder ''m1'' ''o1'' COMPLETED 1000])"
    by (rule t [THEN conjunct1])
  then show ?thesis unfolding m f by simp
qed

text \<open>
  C7. An order with id \<open>m1\<close> and orderId \<open>o1\<close> is PLACED. Its Reject button calls the
  handler with \<open>m1\<close>; the optimistic update looks for the orderId \<open>m1\<close>, finds no order and
  installs the list unchanged, the order still PLACED, and the PUT for REJECTED is sent.
  The Accept button of the same order calls the handler with \<open>o1\<close>, and the order is
  PREPARING before the PUT is sent.
\<close>

theorem C7_reject_not_applied:
  "pendingActions (sampleOrder ''m1'' ''o1'' PLACED 1000) =
     [Click ''o1'' PLACED PREPARING, Click ''m1'' PLACED REJECTED]
   \<and> handleStatusChange (sampleEnv True) True [sampleOrder ''m1'' ''o1'' PLACED 1000]
        ''m1'' PLACED REJECTED =
     [SetOrders [sampleOrder ''m1'' ''o1'' PLACED 1000],
      Send (HttpPut ''m1'' REJECTED ''1''), Toast OrderUpdated]
   \<and> handleStatusChange (sampleEnv True) True [sampleOrder ''m1'' ''o1'' PLACED 1000]
        ''o1'' PLACED PREPARING =
     [SetOrders [sampleOrder ''m1'' ''o1'' PREPARING 1000],
      Send (HttpPut ''o1'' PREPARING ''1''), Toast OrderUpdated]"
  by (simp add: handleStatusChange_def hsc_enter_def hsc_resume_def Let_def pendingActions_def
      applyOptimistic_def sortOrders_def array_sort_def compareOrders_def sampleOrder_def sampleEnv_def)

section \<open>Rollback\<close>

lemma run_append: "run e q (xs @ ys) = run e (run e q xs) ys"
  by (induction xs arbitrary: q) auto

lemma inflight_step_keeps:
  assumes "n < length (inflight q)" "\<forall>b. ev \<noteq> PutSettled n b"
  shows "n < length (inflight (step e q ev)) \<and> inflight (step e q ev) ! n = inflight q ! n"
proof (cases ev)
  case (Press c)
  then show ?thesis using assms(1)
    by (cases c) (simp add: hsc_enter_def Let_def nth_append split: option.splits)
next
  case (PutSettled m b)
  then have "m \<noteq> n" using assms(2) by auto
  then show ?thesis using assms(1) PutSettled by (simp split: option.splits)
next
  case (Message u)
  then show ?thesis using assms(1) by simp
qed

lemma inflight_run_keeps:
  assumes "n < length (inflight q)" "\<forall>b. PutSettled n b \<notin> set evs"
  shows "n < length (inflight (run e q evs)) \<and> inflight (run e q evs) ! n = inflight q ! n"
  using assms
proof (induction evs arbitrary: q)
  case Nil
  then show ?case by simp
next
  case (Cons ev evs)
  have a: "\<forall>b. ev \<noteq> PutSettled n b" using Cons.prems(2) by auto
  have k: "n < length (inflight (step e q ev)) \<and> inflight (step e q ev) ! n = inflight q ! n"
    using inflight_step_keeps [OF Cons.prems(1) a] .
  have r: "\<forall>b. PutSettled n b \<notin> set evs" using Cons.prems(2) by auto
  show ?case using Cons.IH [of "step e q ev"] k r by simp
qed

lemma status_applyOptimistic:
  assumes "order \<in> set (applyOptimistic oid t store)" and "orderId order = oid"
  shows "status order = t"
proof -
  have "order \<in> (\<lambda>order. if orderId order = oid then order\<lparr>status := t\<rparr> else order) ` set store"
    using assms(1) unfolding applyOptimistic_def set_sortOrders set_map .
  then obtain x where x: "order = (if orderId x = oid then x\<lparr>status := t\<rparr> else x)"
    by (rule imageE)
  show ?thesis
  proof (cases "orderId x = oid")
    case True
    then show ?thesis using x by simp
  next
    case False
    then show ?thesis using x assms(2) by simp
  qed
qed

lemma step_press_placed:
  "step e q (Press (Click oid PLACED t)) =
     \<lparr>orders = applyOptimistic oid t (orders q), inflight = inflight q @ [Some (orders q)]\<rparr>"
  by (simp add: hsc_enter_def Let_def)

lemma step_press_offline:
  "c \<noteq> PLACED \<Longrightarrow> \<not> stompConnected e \<Longrightarrow>
   step e q (Press (Click oid c t)) = \<lparr>orders = rollback (orders q), inflight = inflight q\<rparr>"
  by (simp add: hsc_enter_def Let_def)

lemma step_put_rejected:
  "n < length (inflight q) \<Longrightarrow> inflight q ! n = Some p \<Longrightarrow>
   orders (step e q (PutSettled n False)) = rollback p"
  by (simp add: hsc_resume_def)

text \<open>
  C4, as the claim has it, fails. The queue holds order \<open>o1\<close>, PLACED, and order \<open>o2\<close>,
  PREPARING. Accept is pressed on \<open>o1\<close> and, while its PUT is in flight, Mark-as-Ready on
  \<open>o2\<close>, which is published: the queue shows PREPARING and READY_FOR_PICKUP. Then the PUT
  is rejected, and the queue shows PLACED and PREPARING: the rollback for \<open>o1\<close> has undone
  the mutation of \<open>o2\<close> too.
\<close>

theorem C4_rollback_disturbs_others:
  "map status (orders (run (sampleEnv True)
      \<lparr>orders = [sampleOrder ''m1'' ''o1'' PLACED 1000, sampleOrder ''m2'' ''o2'' PREPARING 2000],
       inflight = []\<rparr>
      [Press (Click ''o1'' PLACED PREPARING), Press (Click ''o2'' PREPARING READY_FOR_PICKUP)]))
     = [PREPARING, READY_FOR_PICKUP]
   \<and> map status (orders (run (sampleEnv True)
      \<lparr>orders = [sampleOrder ''m1'' ''o1'' PLACED 1000, sampleOrder ''m2'' ''o2'' PREPARING 2000],
       inflight = []\<rparr>
      [Press (Click ''o1'' PLACED PREPARING), Press (Click ''o2'' PREPARING READY_FOR_PICKUP),
       PutSettled 0 False]))
     = [PLACED, PREPARING]"
  by (simp add: hsc_enter_def hsc_resume_def Let_def rollback_def
      applyOptimistic_def sortOrders_def array_sort_def compareOrders_def sampleOrder_def sampleEnv_def)

text \<open>
  C4, amended. When a dispatched transition fails, the rollback installs the whole list as
  it stood when the action was requested, sorted again. With a PUT in flight this holds
  whatever clicks, messages and settlings of other calls came in between; on the WebSocket
  branch the failure is immediate. Where orderIds are distinct, every order is then seen
  exactly as in that list: the mutated order in its state before the mutation, and each
  other order in its state of that moment as well.
\<close>

theorem C4_rollback_restores_snapshot:
  assumes quiet: "\<forall>b. PutSettled (length (inflight q)) b \<notin> set evs"
    and d: "distinct (map orderId (orders q))"
  shows "orders (run e q (Press (Click oid PLACED new) # evs
            @ [PutSettled (length (inflight q)) False])) = sortOrders (orders q)
       \<and> findByOrderId i (orders (run e q (Press (Click oid PLACED new) # evs
            @ [PutSettled (length (inflight q)) False]))) = findByOrderId i (orders q)
       \<and> (cur \<noteq> PLACED \<and> \<not> stompConnected e \<longrightarrow>
            orders (step e q (Press (Click oid cur new))) = sortOrders (orders q))"
proof -
  let ?n = "length (inflight q)"
  let ?q1 = "step e q (Press (Click oid PLACED new))"
  let ?q2 = "run e ?q1 evs"
  have i1: "inflight ?q1 = inflight q @ [Some (orders q)]"
    by (simp add: hsc_enter_def Let_def)
  then have "?n < length (inflight ?q1)" and "inflight ?q1 ! ?n = Some (orders q)"
    by simp_all
  then have k: "?n < length (inflight ?q2) \<and> inflight ?q2 ! ?n = Some (orders q)"
    using inflight_run_keeps [of ?n ?q1 evs e] quiet by simp
  have "run e q (Press (Click oid PLACED new) # evs @ [PutSettled ?n False])
        = step e ?q2 (PutSettled ?n False)"
    by (simp add: run_append)
  then have a: "orders (run e q (Press (Click oid PLACED new) # evs @ [PutSettled ?n False]))
        = sortOrders (orders q)"
    using k by (simp add: hsc_resume_def rollback_def)
  have c: "cur \<noteq> PLACED \<and> \<not> stompConnected e \<longrightarrow>
            orders (step e q (Press (Click oid cur new))) = sortOrders (orders q)"
    by (simp add: hsc_enter_def Let_def rollback_def)
  show ?thesis using a c findByOrderId_sortOrders [OF d] by simp
qed

theorem C4_rollback_restores_snapshot_witness:
  "map_option status (findByOrderId ''o1'' (orders (run (sampleEnv True)
      \<lparr>orders = [sampleOrder ''m1'' ''o1'' PREPARING 1000, sampleOrder ''m2'' ''o2'' PLACED 2000],
       inflight = []\<rparr>
      (Press (Click ''o2'' PLACED PREPARING) # [Press (Click ''o1'' PREPARING READY_FOR_PICKUP)]
       @ [PutSettled 0 False])))) = Some PREPARING"
proof -
  let ?q = "\<lparr>orders = [sampleOrder ''m1'' ''o1'' PREPARING 1000,
                        sampleOrder ''m2'' ''o2'' PLACED 2000], inflight = []\<rparr>"
  have h1: "\<forall>b. PutSettled (length (inflight ?q)) b
              \<notin> set [Press (Click ''o1'' PREPARING READY_FOR_PICKUP)]"
    by simp
  have h2: "distinct (map orderId (orders ?q))"
    by (simp add: sampleOrder_def)
  have r: "map_option status (findByOrderId ''o1'' (orders ?q)) = Some PREPARING"
    by (simp add: findByOrderId_def sampleOrder_def)
  note t = C4_rollback_restores_snapshot [OF h1 h2,
      of "sampleEnv True" "''o2''" PREPARING "''o1''" PREPARING]
  have "findByOrderId ''o1'' (orders (run (sampleEnv True) ?q
      (Press (Click ''o2'' PLACED PREPARING) # [Press (Click ''o1'' PREPARING READY_FOR_PICKUP)]
       @ [PutSettled (length (inflight ?q)) False]))) = findByOrderId ''o1'' (orders ?q)"
    by (rule t [THEN conjunct2, THEN conjunct1])
  then show ?thesis using r by (simp del: run.simps)
qed

text \<open>
  C5, as the claim has it, fails. Order \<open>o1\<close> is PLACED. Accept is pressed (PUT in flight,
  the order shown as PREPARING), then Mark-as-Ready while the WebSocket client is not
  connected, so the second transition fails at once. Its rollback leaves the order
  PREPARING, the result of the first mutation, which is still unconfirmed; the original
  PLACED is only in the snapshot of the first call.
\<close>

theorem C5_second_snapshot_not_original:
  "map status (orders (run (sampleEnv False)
      \<lparr>orders = [sampleOrder ''m1'' ''o1'' PLACED 1000], inflight = []\<rparr>
      [Press (Click ''o1'' PLACED PREPARING), Press (Click ''o1'' PREPARING READY_FOR_PICKUP)]))
     = [PREPARING]
  \<and> inflight (run (sampleEnv False)
      \<lparr>orders = [sampleOrder ''m1'' ''o1'' PLACED 1000], inflight = []\<rparr>
      [Press (Click ''o1'' PLACED PREPARING), Press (Click ''o1'' PREPARING READY_FOR_PICKUP)])
     = [Some [sampleOrder ''m1'' ''o1'' PLACED 1000]]"
  by (simp add: hsc_enter_def hsc_resume_def Let_def rollback_def
      applyOptimistic_def sortOrders_def array_sort_def compareOrders_def sampleOrder_def sampleEnv_def)

text \<open>
  C5, amended. When a second optimistic mutation is applied to an order whose first one
  still waits for its PUT, the second call's snapshot is the list as the first mutation
  left it. If the second transition fails (its own PUT rejected, or the WebSocket client
  not connected), the rollback installs that list, in which the order has the status
  that the first mutation gave it.
\<close>

theorem C5_second_snapshot_is_first_result:
  assumes "c2 = PLACED \<or> \<not> stompConnected e"
  shows "orders (run e q ([Press (Click oid PLACED t1), Press (Click oid c2 t2)]
            @ (if c2 = PLACED then [PutSettled (Suc (length (inflight q))) False] else [])))
          = rollback (applyOptimistic oid t1 (orders q))
       \<and> (\<forall>order\<in>set (rollback (applyOptimistic oid t1 (orders q))).
            orderId order = oid \<longrightarrow> status order = t1)"
proof -
  let ?s1 = "applyOptimistic oid t1 (orders q)"
  let ?q1 = "\<lparr>orders = ?s1, inflight = inflight q @ [Some (orders q)]\<rparr>"
  have a: "orders (run e q ([Press (Click oid PLACED t1), Press (Click oid c2 t2)]
            @ (if c2 = PLACED then [PutSettled (Suc (length (inflight q))) False] else [])))
          = rollback ?s1"
  proof (cases "c2 = PLACED")
    case True
    let ?q2 = "\<lparr>orders = applyOptimistic oid t2 ?s1,
                 inflight = (inflight q @ [Some (orders q)]) @ [Some ?s1]\<rparr>"
    have "orders (step e ?q2 (PutSettled (Suc (length (inflight q))) False)) = rollback ?s1"
      by (rule step_put_rejected) (simp_all add: nth_append)
    then show ?thesis using True by (simp add: step_press_placed del: step.simps)
  next
    case False
    then have "\<not> stompConnected e" using assms by simp
    then have "step e ?q1 (Press (Click oid c2 t2)) =
        \<lparr>orders = rollback ?s1, inflight = inflight q @ [Some (orders q)]\<rparr>"
      using False step_press_offline [of c2 e ?q1 oid t2] by simp
    then show ?thesis using False by (simp add: step_press_placed del: step.simps)
  qed
  have "set (rollback ?s1) = set ?s1"
    by (simp add: rollback_def set_sortOrders)
  then show ?thesis using a status_applyOptimistic [of _ oid t1 "orders q"] by simp
qed

theorem C5_second_snapshot_is_first_result_witness:
  "map status (orders (run (sampleEnv False)
      \<lparr>orders = [sampleOrder ''m7'' ''o7'' PLACED 5000], inflight = []\<rparr>
      [Press (Click ''o7'' PLACED REJECTED), Press (Click ''o7'' REJECTED COMPLETED)]))
   = [REJECTED]"
proof -
  have h: "REJECTED = PLACED \<or> \<not> stompConnected (sampleEnv False)"
    by (simp add: sampleEnv_def)
  have r: "map status (rollback (applyOptimistic ''o7'' REJECTED
             [sampleOrder ''m7'' ''o7'' PLACED 5000])) = [REJECTED]"
    by (simp add: rollback_def applyOptimistic_def sortOrders_def array_sort_def sampleOrder_def)
  from C5_second_snapshot_is_first_result [OF h,
      of "\<lparr>orders = [sampleOrder ''m7'' ''o7'' PLACED 5000], inflight = []\<rparr>" "''o7''"
      REJECTED COMPLETED]
  have "orders (run (sampleEnv False)
      \<lparr>orders = [sampleOrder ''m7'' ''o7'' PLACED 5000], inflight = []\<rparr>
      [Press (Click ''o7'' PLACED REJECTED), Press (Click ''o7'' REJECTED COMPLETED)])
    = rollback (applyOptimistic ''o7'' REJECTED [sampleOrder ''m7'' ''o7'' PLACED 5000])"
    by (simp del: run.simps)
  then show ?thesis using r by (simp del: run.simps)
qed

section \<open>Checkout\<close>

lemma floor_rat_numeral: "\<lfloor>numeral a / numeral b :: rat\<rfloor> = numeral a div numeral b"
  by (metis floor_divide_of_int_eq of_int_numeral)

lemmas fl_eval =
  fl_def fl_pos_def binade_def round_even_def pow2_def Let_def floor_rat_numeral

text \<open>
  The rounding at work: the literal \<open>0.05\<close> and the prices 25.9 and 12.3 are not binary64
  values, and 25.9 times 3 plus 12.3 is a little less than 90 in these numbers.
\<close>

lemma fl_literal_005: "fl (5 / 100) = Some (3602879701896397 / 72057594037927936)"
  by (simp add: fl_eval)

lemma fl_literal_25_9: "fl (259 / 10) = Some (3645100948402995 / 140737488355328)"
  by (simp add: fl_eval)

lemma fl_literal_12_3: "fl (123 / 10) = Some (3462142213541069 / 281474976710656)"
  by (simp add: fl_eval)

lemma subtotal_below_90:
  "subtotal [\<lparr>item_id = 1, price = 3645100948402995 / 140737488355328, item_quantity = 3\<rparr>,
             \<lparr>item_id = 2, price = 3462142213541069 / 281474976710656, item_quantity = 1\<rparr>]
   = Some (6333186975989759 / 70368744177664)"
  by (simp add: subtotal_def fadd_def fmul_def fl_eval)

lemma taxes_of_that_cart:
  "taxes [\<lparr>item_id = 1, price = 3645100948402995 / 140737488355328, item_quantity = 3\<rparr>,
          \<lparr>item_id = 2, price = 3462142213541069 / 281474976710656, item_quantity = 1\<rparr>]
   = Some 4"
  unfolding taxes_def subtotal_below_90
  by (simp add: Math_round_def fmul_def fl_eval)

lemma lineSum_payload:
  "lineSum (map (\<lambda>item. \<lparr>payload_productId = item_id item,
        payload_quantity = item_quantity item, payload_priceAtOrder = price item\<rparr>) checkoutItems)
   = subtotal checkoutItems"
  by (simp add: lineSum_def subtotal_def foldl_map)

text \<open>
  C8, as the claim has it, fails. A cart of one item of price 100, once: the payload is
  PLACED, its line items sum to 100, and its total amount is 105.
\<close>

theorem C8_total_is_not_line_sum:
  "handlePlaceOrder (Some sampleUser) [\<lparr>item_id = 7, price = 100, item_quantity = 1\<rparr>]
        (Some 1) ''pickup'' ''t0'' ''t1'' =
     Inr \<lparr>payload_userId = ''42'', payload_customerName = ''Asha'',
          payload_customerPhone = ''5550100'', payload_customerEmail = ''asha@example.org'',
          payload_shopId = 1,
          payload_items = [\<lparr>payload_productId = 7, payload_quantity = 1,
                             payload_priceAtOrder = 100\<rparr>],
          payload_totalAmount = Some 105,
          payload_status = PLACED, payload_orderDate = ''t0'',
          payload_estimatedPickupTime = ''t1'', payload_paymentMethod = ''pickup''\<rparr>
   \<and> lineSum [\<lparr>payload_productId = 7, payload_quantity = 1, payload_priceAtOrder = 100\<rparr>]
       = Some 100"
  by (simp add: handlePlaceOrder_def sampleUser_def falsy_def total_def taxes_def subtotal_def
      Math_round_def lineSum_def fadd_def fmul_def fl_eval)

text \<open>
  C8, amended. Every order that the checkout posts has status PLACED, and its total
  amount is the sum over its line items of snapshot price times quantity plus the tax,
  which is 0.05 times that sum rounded to the nearest integer; the sum, the tax and the
  total are all taken in the numbers of the program, each operation rounded to binary64.
\<close>

theorem C8_total_includes_tax:
  assumes "handlePlaceOrder usr checkoutItems currentShopId paymentMethod now pickup = Inr p"
  shows "payload_status p = PLACED
       \<and> payload_totalAmount p =
           fadd (lineSum (payload_items p))
                (Math_round (fmul (lineSum (payload_items p)) (fl (5 / 100))))"
proof -
  from assms have "payload_status p = PLACED"
    and "payload_totalAmount p = total checkoutItems"
    and "lineSum (payload_items p) = subtotal checkoutItems"
    using lineSum_payload [of checkoutItems]
    by (auto simp: handlePlaceOrder_def split: option.splits if_splits)
  then show ?thesis by (simp add: total_def taxes_def)
qed

theorem C8_total_includes_tax_witness:
  "handlePlaceOrder (Some sampleUser)
        [\<lparr>item_id = 1, price = 3645100948402995 / 140737488355328, item_quantity = 3\<rparr>,
         \<lparr>item_id = 2, price = 3462142213541069 / 281474976710656, item_quantity = 1\<rparr>]
        (Some 1) ''pickup'' ''t0'' ''t1'' =
     Inr \<lparr>payload_userId = ''42'', payload_customerName = ''Asha'',
          payload_customerPhone = ''5550100'', payload_customerEmail = ''asha@example.org'',
          payload_shopId = 1,
          payload_items =
            [\<lparr>payload_productId = 1, payload_quantity = 3,
               payload_priceAtOrder = 3645100948402995 / 140737488355328\<rparr>,
             \<lparr>payload_productId = 2, payload_quantity = 1,
               payload_priceAtOrder = 3462142213541069 / 281474976710656\<rparr>],
          payload_totalAmount = Some (6614661952700415 / 70368744177664),
          payload_status = PLACED, payload_orderDate = ''t0'',
          payload_estimatedPickupTime = ''t1'', payload_paymentMethod = ''pickup''\<rparr>"
proof -
  let ?cart = "[\<lparr>item_id = 1, price = 3645100948402995 / 140737488355328, item_quantity = 3\<rparr>,
         \<lparr>item_id = 2, price = 3462142213541069 / 281474976710656, item_quantity = 1\<rparr>]"
  have e: "handlePlaceOrder (Some sampleUser) ?cart (Some 1) ''pickup'' ''t0'' ''t1'' =
     Inr \<lparr>payload_userId = ''42'', payload_customerName = ''Asha'',
          payload_customerPhone = ''5550100'', payload_customerEmail = ''asha@example.org'',
          payload_shopId = 1,
          payload_items =
            [\<lparr>payload_productId = 1, payload_quantity = 3,
               payload_priceAtOrder = 3645100948402995 / 140737488355328\<rparr>,
             \<lparr>payload_productId = 2, payload_quantity = 1,
               payload_priceAtOrder = 3462142213541069 / 281474976710656\<rparr>],
          payload_totalAmount = total ?cart,
          payload_status = PLACED, payload_orderDate = ''t0'',
          payload_estimatedPickupTime = ''t1'', payload_paymentMethod = ''pickup''\<rparr>"
    by (simp add: handlePlaceOrder_def sampleUser_def falsy_def)
  have l: "lineSum [\<lparr>payload_productId = 1, payload_quantity = 3,
               payload_priceAtOrder = 3645100948402995 / 140737488355328\<rparr>,
             \<lparr>payload_productId = 2, payload_quantity = 1,
               payload_priceAtOrder = 3462142213541069 / 281474976710656\<rparr>]
           = Some (6333186975989759 / 70368744177664)"
    by (simp add: lineSum_def fadd_def fmul_def fl_eval)
  have t: "fadd (Some (6333186975989759 / 70368744177664))
             (Math_round (fmul (Some (6333186975989759 / 70368744177664)) (fl (5 / 100))))
           = Some (6614661952700415 / 70368744177664)"
    by (simp add: Math_round_def fadd_def fmul_def fl_eval)
  have "total ?cart =
      fadd (lineSum [\<lparr>payload_productId = 1, payload_quantity = 3,
               payload_priceAtOrder = 3645100948402995 / 140737488355328\<rparr>,
             \<lparr>payload_productId = 2, payload_quantity = 1,
               payload_priceAtOrder = 3462142213541069 / 281474976710656\<rparr>])
        (Math_round (fmul (lineSum [\<lparr>payload_productId = 1, payload_quantity = 3,
               payload_priceAtOrder = 3645100948402995 / 140737488355328\<rparr>,
             \<lparr>payload_productId = 2, payload_quantity = 1,
               payload_priceAtOrder = 3462142213541069 / 281474976710656\<rparr>]) (fl (5 / 100))))"
    using C8_total_includes_tax [OF e] by simp
  then have "total ?cart = Some (6614661952700415 / 70368744177664)"
    by (simp only: l t)
  then show ?thesis using e by simp
qed

section \<open>QR-code completion\<close>

lemma canTransition_COMPLETED: "canTransition s COMPLETED = (s = READY_FOR_PICKUP)"
  by (cases s) simp_all

lemma serverPut_present:
  assumes "distinct (map orderId server)" and "order \<in> set server"
  shows "serverPut server (orderId order) COMPLETED =
     (if status order = READY_FOR_PICKUP
      then (Inr (order\<lparr>status := COMPLETED\<rparr>),
            map (\<lambda>x. if orderId x = orderId order then order\<lparr>status := COMPLETED\<rparr> else x) server)
      else (Inl InvalidTransition, server))"
proof -
  have "find (\<lambda>x. orderId x = orderId order) server = Some order"
    using assms by (simp add: find_distinct_key)
  then show ?thesis
    by (simp add: serverPut_def applyTransition_def canTransition_COMPLETED)
qed

text \<open>
  C9. Scanning the code of an order sends one request, by HTTP PUT and not through the
  queue's handler, to set the order named by the code to COMPLETED, whatever the answer
  will be. On a server that holds the order under its orderId (orderIds distinct there)
  the request passes through the validator: when the order is READY_FOR_PICKUP the
  answer is the order in COMPLETED and the server's orders hold it so; in every other
  status the answer is \<open>InvalidTransition\<close> and the server's orders are as before. The
  validator accepts COMPLETED from READY_FOR_PICKUP only.
\<close>

theorem C9_scan_completes_only_when_ready:
  assumes "distinct (map orderId server)" and "order \<in> set server"
  shows "sent (onScan vendorIdNumber responseOk (qrCode order))
           = [FetchPut (orderId order) COMPLETED vendorIdNumber]
       \<and> sent (fst (scanAtServer vendorIdNumber server (qrCode order)))
           = [FetchPut (orderId order) COMPLETED vendorIdNumber]
       \<and> fst (serverPut server (qrCode order) COMPLETED) =
           (if status order = READY_FOR_PICKUP then Inr (order\<lparr>status := COMPLETED\<rparr>)
            else Inl InvalidTransition)
       \<and> snd (scanAtServer vendorIdNumber server (qrCode order)) =
           (if status order = READY_FOR_PICKUP
            then map (\<lambda>x. if orderId x = orderId order
                           then order\<lparr>status := COMPLETED\<rparr> else x) server
            else server)
       \<and> canTransition s COMPLETED = (s = READY_FOR_PICKUP)"
proof -
  note p = serverPut_present [OF assms]
  have a: "sent (onScan vendorIdNumber responseOk (qrCode order))
           = [FetchPut (orderId order) COMPLETED vendorIdNumber]"
    by (simp add: onScan_def updateOrderStatusToCompleted_def qrCode_def)
  have b: "sent (fst (scanAtServer vendorIdNumber server (qrCode order)))
           = [FetchPut (orderId order) COMPLETED vendorIdNumber]"
    by (simp add: scanAtServer_def qrCode_def p onScan_def updateOrderStatusToCompleted_def)
  have c: "fst (serverPut server (qrCode order) COMPLETED) =
           (if status order = READY_FOR_PICKUP then Inr (order\<lparr>status := COMPLETED\<rparr>)
            else Inl InvalidTransition)"
    by (simp add: qrCode_def p)
  have d: "snd (scanAtServer vendorIdNumber server (qrCode order)) =
           (if status order = READY_FOR_PICKUP
            then map (\<lambda>x. if orderId x = orderId order
                           then order\<lparr>status := COMPLETED\<rparr> else x) server
            else server)"
    by (simp add: scanAtServer_def qrCode_def p)
  show ?thesis by (intro conjI a b c d canTransition_COMPLETED)
qed

theorem C9_scan_completes_only_when_ready_witness:
  "map status (snd (scanAtServer None
     [sampleOrder ''m1'' ''o1'' READY_FOR_PICKUP 1000, sampleOrder ''m2'' ''o2'' PLACED 2000]
     ''o1'')) = [COMPLETED, PLACED]
   \<and> map status (snd (scanAtServer None
     [sampleOrder ''m1'' ''o1'' READY_FOR_PICKUP 1000, sampleOrder ''m2'' ''o2'' PLACED 2000]
     ''o2'')) = [READY_FOR_PICKUP, PLACED]"
proof -
  let ?a = "sampleOrder ''m1'' ''o1'' READY_FOR_PICKUP 1000"
  let ?b = "sampleOrder ''m2'' ''o2'' PLACED 2000"
  have h: "distinct (map orderId [?a, ?b])"
    by (simp add: sampleOrder_def)
  have ia: "?a \<in> set [?a, ?b]" and ib: "?b \<in> set [?a, ?b]"
    by simp_all
  have qa: "qrCode ?a = ''o1''" and qb: "qrCode ?b = ''o2''"
    by (simp_all add: qrCode_def sampleOrder_def)
  note ta = C9_scan_completes_only_when_ready [OF h ia, of None True READY_FOR_PICKUP]
  note tb = C9_scan_completes_only_when_ready [OF h ib, of None True READY_FOR_PICKUP]
  have "snd (scanAtServer None [?a, ?b] (qrCode ?a)) =
          (if status ?a = READY_FOR_PICKUP
           then map (\<lambda>x. if orderId x = orderId ?a then ?a\<lparr>status := COMPLETED\<rparr> else x) [?a, ?b]
           else [?a, ?b])"
    by (rule ta [THEN conjunct2, THEN conjunct2, THEN conjunct2, THEN conjunct1])
  then have ra: "map status (snd (scanAtServer None [?a, ?b] ''o1'')) = [COMPLETED, PLACED]"
    unfolding qa by (simp add: sampleOrder_def)
  have "snd (scanAtServer None [?a, ?b] (qrCode ?b)) =
          (if status ?b = READY_FOR_PICKUP
           then map (\<lambda>x. if orderId x = orderId ?b then ?b\<lparr>status := COMPLETED\<rparr> else x) [?a, ?b]
           else [?a, ?b])"
    by (rule tb [THEN conjunct2, THEN conjunct2, THEN conjunct2, THEN conjunct1])
  then have rb: "map status (snd (scanAtServer None [?a, ?b] ''o2'')) = [READY_FOR_PICKUP, PLACED]"
    unfolding qb by (simp add: sampleOrder_def)
  show ?thesis using ra rb by simp
qed

end
